theory Spec2Isabelle
  imports Main
begin


section \<open>JavaScript values shared by the components\<close>

text \<open>
  Strings are byte strings (the UTF-8 text of the JavaScript string). Numbers that the
  modelled code only counts, compares or prints are integers; the decimal text below is
  what a template literal \<^verbatim>\<open>`${n}`\<close> gives for an integer of magnitude below \<open>10^21\<close>,
  which covers every counter and the values of the scenarios.
\<close>

definition digit_char :: "nat \<Rightarrow> char" where
  "digit_char n = ''0123456789'' ! n"

fun show_nat :: "nat \<Rightarrow> string" where
  "show_nat n = (if n < 10 then [digit_char n] else show_nat (n div 10) @ [digit_char (n mod 10)])"

declare show_nat.simps [simp del]

definition show_int :: "int \<Rightarrow> string" where
  "show_int i = (if i < 0 then CHR ''-'' # show_nat (nat (- i)) else show_nat (nat i))"



text \<open>
  A value of type \<^verbatim>\<open>unknown\<close>, as far as the bus payloads and audit details of the
  scenarios need it. \<open>JBigInt\<close> stands for the values \<^verbatim>\<open>JSON.stringify\<close> refuses with a
  TypeError.
\<close>

datatype jsval =
    JNull
  | JBool bool
  | JNum int
  | JStr string
  | JBigInt int
  | JArr "jsval list"
  | JObj "(string \<times> jsval) list"

text \<open>\<^verbatim>\<open>{ ...obj, key: v }\<close> and \<^verbatim>\<open>Map.set\<close>: an existing key keeps its place, a new one goes last.\<close>

fun set_key :: "'k \<Rightarrow> 'v \<Rightarrow> ('k \<times> 'v) list \<Rightarrow> ('k \<times> 'v) list" where
  "set_key k v [] = [(k, v)]"
| "set_key k v (p # ps) = (if fst p = k then (k, v) # ps else p # set_key k v ps)"

text \<open>\<^verbatim>\<open>arr.slice(0, limit)\<close> for an integer limit: a negative limit counts from the end.\<close>

definition slice0 :: "int \<Rightarrow> 'a list \<Rightarrow> 'a list" where
  "slice0 limit xs =
     (if limit < 0 then take (nat (int (length xs) + limit)) xs else take (nat limit) xs)"

text \<open>\<^verbatim>\<open>arr.slice(-n)\<close> for \<open>n > 0\<close>: the last \<open>n\<close> elements.\<close>

definition slice_last :: "nat \<Rightarrow> 'a list \<Rightarrow> 'a list" where
  "slice_last n xs = drop (length xs - n) xs"


section \<open>Bounded autonomy engine (protocols/bounded-autonomy.ts)\<close>

datatype AuthorityLevel = auto_approve | log_only | require_approval | require_human

datatype RiskLevel = risk_low | risk_medium | risk_high | risk_critical

record GovernancePolicy =
  p_riskLevel :: RiskLevel
  authority :: AuthorityLevel
  maxAutoApproveValue :: "int option"
  auditRequired :: bool

text \<open>The fields of a tool the engine reads (its schema and its \<open>execute\<close> function are not).\<close>

record ToolDefinition =
  name :: string
  category :: string
  requiresApproval :: bool
  riskLevel :: RiskLevel

record Decision =
  d_timestamp :: int
  d_tool :: string
  d_decision :: AuthorityLevel
  d_reason :: string

record Engine =
  policies :: "GovernancePolicy list"
  overrides :: "string \<rightharpoonup> AuthorityLevel"
  auditLog :: "Decision list"

definition default_policies :: "GovernancePolicy list" where
  "default_policies =
     [\<lparr>p_riskLevel = risk_critical, authority = require_human, maxAutoApproveValue = None, auditRequired = True\<rparr>,
      \<lparr>p_riskLevel = risk_high, authority = require_approval, maxAutoApproveValue = None, auditRequired = True\<rparr>,
      \<lparr>p_riskLevel = risk_medium, authority = log_only, maxAutoApproveValue = None, auditRequired = True\<rparr>,
      \<lparr>p_riskLevel = risk_low, authority = auto_approve, maxAutoApproveValue = None, auditRequired = False\<rparr>]"

definition new_engine :: Engine where
  "new_engine = \<lparr>policies = default_policies, overrides = Map.empty, auditLog = []\<rparr>"

definition find_policy :: "Engine \<Rightarrow> ToolDefinition \<Rightarrow> GovernancePolicy option" where
  "find_policy e tool = find (\<lambda>p. p_riskLevel p = riskLevel tool) (policies e)"

definition getAuthority :: "Engine \<Rightarrow> ToolDefinition \<Rightarrow> AuthorityLevel" where
  "getAuthority e tool =
     (case overrides e (name tool) of
        Some override \<Rightarrow> override
      | None \<Rightarrow>
          if requiresApproval tool
          then (if riskLevel tool = risk_critical then require_human else require_approval)
          else (case find_policy e tool of
                  Some policy \<Rightarrow> authority policy
                | None \<Rightarrow> require_approval))"

definition canAutoExecute :: "Engine \<Rightarrow> ToolDefinition \<Rightarrow> bool" where
  "canAutoExecute e tool =
     (let a = getAuthority e tool in a = auto_approve \<or> a = log_only)"

definition requiresAudit :: "Engine \<Rightarrow> ToolDefinition \<Rightarrow> bool" where
  "requiresAudit e tool =
     (if requiresApproval tool then True
      else (case find_policy e tool of Some policy \<Rightarrow> auditRequired policy | None \<Rightarrow> True))"

text \<open>\<open>now\<close> is the reading of the clock taken by \<^verbatim>\<open>new Date()\<close>.\<close>

definition recordDecision :: "Engine \<Rightarrow> int \<Rightarrow> ToolDefinition \<Rightarrow> AuthorityLevel \<Rightarrow> string \<Rightarrow> Engine" where
  "recordDecision e now tool decision reason =
     (let log = auditLog e @
            [\<lparr>d_timestamp = now, d_tool = name tool, d_decision = decision, d_reason = reason\<rparr>]
      in e\<lparr>auditLog := (if length log > 10000 then slice_last 5000 log else log)\<rparr>)"

definition setOverride :: "Engine \<Rightarrow> string \<Rightarrow> AuthorityLevel \<Rightarrow> Engine" where
  "setOverride e toolName a = e\<lparr>overrides := (overrides e)(toolName \<mapsto> a)\<rparr>"

definition removeOverride :: "Engine \<Rightarrow> string \<Rightarrow> Engine" where
  "removeOverride e toolName = e\<lparr>overrides := (overrides e)(toolName := None)\<rparr>"

definition setPolicies :: "Engine \<Rightarrow> GovernancePolicy list \<Rightarrow> Engine" where
  "setPolicies e ps = e\<lparr>policies := ps\<rparr>"

text \<open>
  The test \<^verbatim>\<open>policy?.maxAutoApproveValue && estimatedValue > policy.maxAutoApproveValue\<close>
  is a truthiness test: a threshold that is absent or \<open>0\<close> never escalates.
\<close>

definition validateValueThreshold ::
    "Engine \<Rightarrow> int \<Rightarrow> ToolDefinition \<Rightarrow> int \<Rightarrow> AuthorityLevel \<times> Engine" where
  "validateValueThreshold e now tool estimatedValue =
     (let baseAuthority = getAuthority e tool in
      case find_policy e tool of
        None \<Rightarrow> (baseAuthority, e)
      | Some policy \<Rightarrow>
          (case maxAutoApproveValue policy of
             None \<Rightarrow> (baseAuthority, e)
           | Some limit \<Rightarrow>
               if limit \<noteq> 0 \<and> estimatedValue > limit
               then (let escalated = (if baseAuthority = auto_approve then require_approval else require_human)
                     in (escalated,
                         recordDecision e now tool escalated
                           (''Value threshold exceeded: $'' @ show_int estimatedValue)))
               else (baseAuthority, e)))"

text \<open>The operations that change an engine, and the states they reach from a new engine.\<close>

datatype engine_op =
    SetOverride string AuthorityLevel
  | RemoveOverride string
  | SetPolicies "GovernancePolicy list"
  | RecordDecision int ToolDefinition AuthorityLevel string
  | ValidateValueThreshold int ToolDefinition int

fun apply_engine_op :: "Engine \<Rightarrow> engine_op \<Rightarrow> Engine" where
  "apply_engine_op e (SetOverride n a) = setOverride e n a"
| "apply_engine_op e (RemoveOverride n) = removeOverride e n"
| "apply_engine_op e (SetPolicies ps) = setPolicies e ps"
| "apply_engine_op e (RecordDecision now t d r) = recordDecision e now t d r"
| "apply_engine_op e (ValidateValueThreshold now t v) = snd (validateValueThreshold e now t v)"

definition engine_after :: "engine_op list \<Rightarrow> Engine" where
  "engine_after ops = foldl apply_engine_op new_engine ops"

fun sets_override :: "string \<Rightarrow> engine_op \<Rightarrow> bool" where
  "sets_override n (SetOverride m a) = (m = n)"
| "sets_override n other = False"

text \<open>The operations that set or remove the override of a name.\<close>

fun touches_override :: "string \<Rightarrow> engine_op \<Rightarrow> bool" where
  "touches_override n (SetOverride m a) = (m = n)"
| "touches_override n (RemoveOverride m) = (m = n)"
| "touches_override n other = False"


section \<open>Agent-to-agent message bus (protocols/a2a.ts)\<close>

datatype MessageType = type_request | type_response | type_broadcast

record A2AMessage =
  msg_id :: string
  fromAgent :: string
  toAgent :: string
  msg_type :: MessageType
  payload :: "(string \<times> jsval) list"
  msg_timestamp :: int
  ttl :: int

datatype A2AEvent = a2a_received A2AMessage | a2a_broadcast A2AMessage | a2a_expired A2AMessage

text \<open>
  \<open>queues\<close> is the \<^verbatim>\<open>Map\<close> of mailboxes in insertion order (the order \<open>respond\<close>, \<open>broadcast\<close> and
  the purge walk it in); \<open>acknowledged\<close> is the \<^verbatim>\<open>Set\<close> of acknowledged ids in insertion order
  (the order its pruning cuts it in). Times are milliseconds, as \<^verbatim>\<open>Date.now()\<close> reads them.
\<close>

record Bus =
  queues :: "(string \<times> A2AMessage list) list"
  acknowledged :: "string list"

definition new_bus :: Bus where
  "new_bus = \<lparr>queues = [], acknowledged = []\<rparr>"

text \<open>\<^verbatim>\<open>if (!this.queues.has(a)) this.queues.set(a, [])\<close>\<close>

definition ensure_queue :: "(string \<times> A2AMessage list) list \<Rightarrow> string \<Rightarrow> (string \<times> A2AMessage list) list" where
  "ensure_queue qs agent = (if map_of qs agent = None then set_key agent [] qs else qs)"

text \<open>\<^verbatim>\<open>this.queues.get(a)!.push(m)\<close>\<close>

definition push_message :: "(string \<times> A2AMessage list) list \<Rightarrow> string \<Rightarrow> A2AMessage \<Rightarrow> (string \<times> A2AMessage list) list" where
  "push_message qs agent m =
     (case map_of qs agent of None \<Rightarrow> qs | Some q \<Rightarrow> set_key agent (q @ [m]) qs)"

definition acknowledge :: "Bus \<Rightarrow> string \<Rightarrow> Bus" where
  "acknowledge b msgId =
     b\<lparr>acknowledged := (if msgId \<in> set (acknowledged b) then acknowledged b
                         else acknowledged b @ [msgId])\<rparr>"

text \<open>\<open>uid\<close> is the identifier \<^verbatim>\<open>uuid()\<close> returns and \<open>now\<close> the clock reading of the call.\<close>

definition send ::
    "Bus \<Rightarrow> string \<Rightarrow> int \<Rightarrow> string \<Rightarrow> string \<Rightarrow> (string \<times> jsval) list \<Rightarrow> int
     \<Rightarrow> A2AMessage \<times> Bus \<times> A2AEvent list" where
  "send b uid now from to pl ttl_ms =
     (let msg = \<lparr>msg_id = uid, fromAgent = from, toAgent = to, msg_type = type_request,
                  payload = pl, msg_timestamp = now, ttl = ttl_ms\<rparr>
      in (msg, b\<lparr>queues := push_message (ensure_queue (queues b) to) to msg\<rparr>, [a2a_received msg]))"

text \<open>The first mailbox, in \<^verbatim>\<open>Map\<close> order, that holds a message of the id, and its first such message.\<close>

fun find_original :: "string \<Rightarrow> (string \<times> A2AMessage list) list \<Rightarrow> A2AMessage option" where
  "find_original i [] = None"
| "find_original i ((a, q) # qs) =
     (case find (\<lambda>m. msg_id m = i) q of Some m \<Rightarrow> Some m | None \<Rightarrow> find_original i qs)"

definition respond ::
    "Bus \<Rightarrow> string \<Rightarrow> int \<Rightarrow> string \<Rightarrow> string \<Rightarrow> (string \<times> jsval) list \<Rightarrow> int
     \<Rightarrow> A2AMessage option \<times> Bus" where
  "respond b uid now originalMsgId from pl ttl_ms =
     (case find_original originalMsgId (queues b) of
        None \<Rightarrow> (None, b)
      | Some original \<Rightarrow>
          (let response = \<lparr>msg_id = uid, fromAgent = from, toAgent = fromAgent original,
                            msg_type = type_response,
                            payload = set_key ''inReplyTo'' (JStr originalMsgId) pl,
                            msg_timestamp = now, ttl = ttl_ms\<rparr>;
               qs = push_message (ensure_queue (queues b) (fromAgent original))
                      (fromAgent original) response
           in (Some response, acknowledge (b\<lparr>queues := qs\<rparr>) originalMsgId)))"

definition broadcast ::
    "Bus \<Rightarrow> string \<Rightarrow> int \<Rightarrow> string \<Rightarrow> (string \<times> jsval) list \<Rightarrow> int
     \<Rightarrow> A2AMessage \<times> Bus \<times> A2AEvent list" where
  "broadcast b uid now from pl ttl_ms =
     (let msg = \<lparr>msg_id = uid, fromAgent = from, toAgent = ''*'', msg_type = type_broadcast,
                  payload = pl, msg_timestamp = now, ttl = ttl_ms\<rparr>
      in (msg,
          b\<lparr>queues := map (\<lambda>(agentId, queue). if agentId \<noteq> from then (agentId, queue @ [msg])
                                                else (agentId, queue)) (queues b)\<rparr>,
          [a2a_broadcast msg]))"

definition mailbox :: "Bus \<Rightarrow> string \<Rightarrow> A2AMessage list" where
  "mailbox b agentId = (case map_of (queues b) agentId of None \<Rightarrow> [] | Some q \<Rightarrow> q)"

definition receive :: "Bus \<Rightarrow> string \<Rightarrow> int \<Rightarrow> int \<Rightarrow> A2AMessage list" where
  "receive b agentId limit now =
     slice0 limit
       (filter (\<lambda>m. now - msg_timestamp m < ttl m)
          (filter (\<lambda>m. msg_id m \<notin> set (acknowledged b)) (mailbox b agentId)))"

definition consume :: "Bus \<Rightarrow> string \<Rightarrow> int \<Rightarrow> int \<Rightarrow> A2AMessage list \<times> Bus" where
  "consume b agentId limit now =
     (let messages = receive b agentId limit now
      in (messages, foldl (\<lambda>b' m. acknowledge b' (msg_id m)) b messages))"

definition registerAgent :: "Bus \<Rightarrow> string \<Rightarrow> Bus" where
  "registerAgent b agentId = b\<lparr>queues := ensure_queue (queues b) agentId\<rparr>"

definition getQueueDepth :: "Bus \<Rightarrow> string \<Rightarrow> nat" where
  "getQueueDepth b agentId =
     length (filter (\<lambda>m. msg_id m \<notin> set (acknowledged b)) (mailbox b agentId))"

definition getRegisteredAgents :: "Bus \<Rightarrow> string list" where
  "getRegisteredAgents b = map fst (queues b)"

definition expired :: "int \<Rightarrow> A2AMessage \<Rightarrow> bool" where
  "expired now m = (now - msg_timestamp m \<ge> ttl m)"

text \<open>
  The purge walks the mailboxes in order; in each it emits \<^verbatim>\<open>a2a:expired\<close> for every expired
  message it meets and keeps the others. Then it cuts the acknowledged set.
\<close>

definition purgeExpired :: "Bus \<Rightarrow> int \<Rightarrow> Bus \<times> A2AEvent list" where
  "purgeExpired b now =
     (\<lparr>queues = map (\<lambda>(agentId, queue). (agentId, filter (\<lambda>m. \<not> expired now m) queue)) (queues b),
       acknowledged = (if length (acknowledged b) > 5000 then slice_last 2500 (acknowledged b)
                       else acknowledged b)\<rparr>,
      concat (map (\<lambda>(agentId, queue). map a2a_expired (filter (expired now) queue)) (queues b)))"

definition destroy :: "Bus \<Rightarrow> Bus" where
  "destroy b = \<lparr>queues = [], acknowledged = []\<rparr>"

text \<open>The number of mailbox slots that hold a message.\<close>

fun copies_in :: "(string \<times> A2AMessage list) list \<Rightarrow> A2AMessage \<Rightarrow> nat" where
  "copies_in [] m = 0"
| "copies_in ((agentId, queue) # qs) m = count_list queue m + copies_in qs m"

definition copies :: "Bus \<Rightarrow> A2AMessage \<Rightarrow> nat" where
  "copies b m = copies_in (queues b) m"

definition holds_id :: "Bus \<Rightarrow> string \<Rightarrow> bool" where
  "holds_id b i = list_ex (\<lambda>(agentId, queue). list_ex (\<lambda>m. msg_id m = i) queue) (queues b)"


section \<open>Tasks (core/types.ts) and the daemon's task queue (daemon loop)\<close>

datatype TaskPriority = critical | high | medium | low

record TaskResult =
  success :: bool
  result_output :: jsval
  tokensUsed :: int
  executionTimeMs :: int
  subTasksSpawned :: "string list"
  errors :: "string list"

text \<open>Task types and agent roles are string literals; dates are clock readings in milliseconds.\<close>

record Task =
  task_id :: string
  task_type :: string
  priority :: TaskPriority
  title :: string
  description :: string
  assignedAgent :: "string option"
  task_payload :: "(string \<times> jsval) list"
  dependencies :: "string list"
  createdAt :: int
  startedAt :: "int option"
  completedAt :: "int option"
  result :: "TaskResult option"

text \<open>The task \<open>Orchestrator.createTask\<close> builds (\<open>uid\<close> from \<^verbatim>\<open>uuid()\<close>, \<open>now\<close> from the clock).\<close>

definition createTask ::
    "string \<Rightarrow> int \<Rightarrow> string \<Rightarrow> TaskPriority \<Rightarrow> string \<Rightarrow> string \<Rightarrow> (string \<times> jsval) list \<Rightarrow> Task" where
  "createTask uid now ty prio ttl_text descr pl =
     \<lparr>task_id = uid, task_type = ty, priority = prio, title = ttl_text, description = descr,
      assignedAgent = None, task_payload = pl, dependencies = [], createdAt = now,
      startedAt = None, completedAt = None, result = None\<rparr>"

fun priorityOrder :: "TaskPriority \<Rightarrow> nat" where
  "priorityOrder critical = 0"
| "priorityOrder high = 1"
| "priorityOrder medium = 2"
| "priorityOrder low = 3"

text \<open>
  \<^verbatim>\<open>taskQueue.sort((a, b) => priorityOrder[a.task.priority] - priorityOrder[b.task.priority])\<close>:
  \<^verbatim>\<open>Array.prototype.sort\<close> is stable (ECMAScript 2019), as insertion sort by key is.
\<close>

definition sort_queue :: "Task list \<Rightarrow> Task list" where
  "sort_queue q = sort_key (\<lambda>t. priorityOrder (priority t)) q"

text \<open>
  \<open>processQueue\<close> is an \<^verbatim>\<open>async\<close> function: it runs until it awaits
  \<open>orchestrator.executeTask(task)\<close> and goes on when that promise settles. The state records
  the queue, the \<open>processing\<close> flag, the task whose execution is awaited, the tasks handed to
  \<open>executeTask\<close> so far (the processing order) and the executions logged.
\<close>

record Daemon =
  taskQueue :: "Task list"
  processing :: bool
  inflight :: "Task option"
  dispatched :: "Task list"
  executionLog :: "(string \<times> bool) list"

definition new_daemon :: Daemon where
  "new_daemon = \<lparr>taskQueue = [], processing = False, inflight = None, dispatched = [],
                  executionLog = []\<rparr>"

text \<open>
  One turn of the \<^verbatim>\<open>while (this.taskQueue.length > 0)\<close> loop up to its await: sort, shift
  the first task and hand it to \<open>executeTask\<close>; with an empty queue the loop ends and
  \<open>processing\<close> is reset.
\<close>

definition loop_turn :: "Daemon \<Rightarrow> Daemon" where
  "loop_turn d =
     (case sort_queue (taskQueue d) of
        [] \<Rightarrow> d\<lparr>processing := False\<rparr>
      | t # rest \<Rightarrow> d\<lparr>taskQueue := rest, inflight := Some t, dispatched := dispatched d @ [t]\<rparr>)"

definition processQueue :: "Daemon \<Rightarrow> Daemon" where
  "processQueue d =
     (if processing d \<or> taskQueue d = [] then d else loop_turn (d\<lparr>processing := True\<rparr>))"

definition enqueueTask :: "Daemon \<Rightarrow> Task \<Rightarrow> Daemon" where
  "enqueueTask d task = processQueue (d\<lparr>taskQueue := taskQueue d @ [task]\<rparr>)"

text \<open>
  The awaited \<open>executeTask\<close> settles (\<open>ok\<close>: resolved, not rejected): the execution is logged,
  the caller's promise resolved, and the loop takes its next turn.
\<close>

definition settle :: "Daemon \<Rightarrow> bool \<Rightarrow> Daemon" where
  "settle d ok =
     (case inflight d of
        None \<Rightarrow> d
      | Some t \<Rightarrow> loop_turn (d\<lparr>inflight := None, executionLog := executionLog d @ [(task_id t, ok)]\<rparr>))"

datatype daemon_event = Enqueue Task | Settled bool

fun daemon_step :: "Daemon \<Rightarrow> daemon_event \<Rightarrow> Daemon" where
  "daemon_step d (Enqueue task) = enqueueTask d task"
| "daemon_step d (Settled ok) = settle d ok"

definition run_daemon :: "Daemon \<Rightarrow> daemon_event list \<Rightarrow> Daemon" where
  "run_daemon d evs = foldl daemon_step d evs"

text \<open>The four tasks of the priority scenario, and a task that keeps the worker busy.\<close>

definition T0 :: Task where "T0 = createTask ''T0'' 0 ''custom'' medium ''T0'' [] []"

definition T1 :: Task where "T1 = createTask ''T1'' 1 ''custom'' low ''T1'' [] []"

definition T2 :: Task where "T2 = createTask ''T2'' 2 ''custom'' critical ''T2'' [] []"

definition T3 :: Task where "T3 = createTask ''T3'' 3 ''custom'' medium ''T3'' [] []"

definition T4 :: Task where "T4 = createTask ''T4'' 4 ''custom'' critical ''T4'' [] []"


section \<open>Orchestrator: executing a task (core/orchestrator.ts)\<close>












section \<open>Audit trail (protocols/audit-trail.ts)\<close>

text \<open>
  A row of the table \<open>audit_trail\<close>. The table is the list of its rows in insertion order; its
  constraints are \<open>id PRIMARY KEY\<close> and \<open>sequence_number UNIQUE\<close>.
\<close>

record AuditRow =
  row_id :: string
  sequence_number :: int
  row_timestamp :: string
  row_actor :: string
  row_action :: string
  row_target :: string
  row_details :: string
  previous_hash :: string
  row_hash :: string

text \<open>The entry \<open>record\<close> returns. A \<^verbatim>\<open>Date\<close> is given by its \<^verbatim>\<open>toISOString()\<close> text.\<close>

record 'd AuditEntry =
  entry_id :: string
  sequenceNumber :: int
  timestamp :: string
  actor :: string
  action :: string
  target :: string
  details :: 'd
  previousHash :: string
  hash :: string

record AuditTrail =
  db :: "AuditRow list"
  sequenceCounter :: int
  lastHash :: string

definition genesis_hash :: string where
  "genesis_hash = replicate 64 CHR ''0''"

text \<open>\<^verbatim>\<open>SELECT * FROM audit_trail ORDER BY sequence_number ASC\<close>\<close>

definition select_all_asc :: "AuditRow list \<Rightarrow> AuditRow list" where
  "select_all_asc rows = sort_key sequence_number rows"

text \<open>\<^verbatim>\<open>INSERT INTO audit_trail\<close>: refused (\<open>None\<close>) when a constraint is violated.\<close>

definition insert_row :: "AuditRow list \<Rightarrow> AuditRow \<Rightarrow> AuditRow list option" where
  "insert_row rows r =
     (if row_id r \<in> set (map row_id rows) \<or> sequence_number r \<in> set (map sequence_number rows)
      then None else Some (rows @ [r]))"

text \<open>The constructor, over the rows the database holds: it resumes from the last entry.\<close>

definition new_AuditTrail :: "AuditRow list \<Rightarrow> AuditTrail" where
  "new_AuditTrail rows =
     (case rev (select_all_asc rows) of
        [] \<Rightarrow> \<lparr>db = rows, sequenceCounter = 0, lastHash = genesis_hash\<rparr>
      | last_row # earlier \<Rightarrow>
          \<lparr>db = rows, sequenceCounter = sequence_number last_row, lastHash = row_hash last_row\<rparr>)"

definition hash_payload ::
    "string \<Rightarrow> int \<Rightarrow> string \<Rightarrow> string \<Rightarrow> string \<Rightarrow> string \<Rightarrow> string \<Rightarrow> string" where
  "hash_payload prev n ts actr actn targ dets =
     prev @ ''|'' @ show_int n @ ''|'' @ ts @ ''|'' @ actr @ ''|'' @ actn @ ''|'' @ targ @ ''|'' @ dets"

datatype RecordError = SerializeError | ConstraintError

text \<open>
  \<open>record(actor, action, target, details)\<close>. The library functions are parameters: \<open>sha256\<close> is
  \<^verbatim>\<open>createHash('sha256').update(s).digest('hex')\<close> and \<open>stringify\<close> is \<^verbatim>\<open>JSON.stringify\<close>, with
  \<open>None\<close> where it throws. \<open>uid\<close> and \<open>now\<close> are what \<^verbatim>\<open>uuid()\<close> and the clock give the call.
  The counter is incremented first; a call that throws later leaves it incremented.
\<close>

definition record_entry ::
    "(string \<Rightarrow> string) \<Rightarrow> ('d \<Rightarrow> string option) \<Rightarrow> AuditTrail
     \<Rightarrow> string \<Rightarrow> string \<Rightarrow> string \<Rightarrow> string \<Rightarrow> string \<Rightarrow> 'd
     \<Rightarrow> AuditTrail \<times> (RecordError + 'd AuditEntry)" where
  "record_entry sha256 stringify trail uid now actr actn targ dets =
     (let n = sequenceCounter trail + 1;
          trail1 = trail\<lparr>sequenceCounter := n\<rparr>
      in case stringify dets of
           None \<Rightarrow> (trail1, Inl SerializeError)
         | Some json \<Rightarrow>
             (let h = sha256 (hash_payload (lastHash trail) n now actr actn targ json);
                  entry = \<lparr>entry_id = uid, sequenceNumber = n, timestamp = now, actor = actr,
                           action = actn, target = targ, details = dets,
                           previousHash = lastHash trail, hash = h\<rparr>
              in case insert_row (db trail)
                        \<lparr>row_id = uid, sequence_number = n, row_timestamp = now, row_actor = actr,
                         row_action = actn, row_target = targ, row_details = json,
                         previous_hash = lastHash trail, row_hash = h\<rparr> of
                   None \<Rightarrow> (trail1, Inl ConstraintError)
                 | Some rows \<Rightarrow> (trail1\<lparr>db := rows, lastHash := h\<rparr>, Inr entry)))"


definition row_payload :: "AuditRow \<Rightarrow> string" where
  "row_payload r =
     hash_payload (previous_hash r) (sequence_number r) (row_timestamp r) (row_actor r)
       (row_action r) (row_target r) (row_details r)"



definition getCount :: "AuditTrail \<Rightarrow> nat" where
  "getCount trail = length (db trail)"

text \<open>A sequence of \<open>record\<close> calls; a call that throws leaves no row and the next one goes on.\<close>

record 'd RecordCall =
  call_uid :: string
  call_now :: string
  call_actor :: string
  call_action :: string
  call_target :: string
  call_details :: 'd

definition record_call ::
    "(string \<Rightarrow> string) \<Rightarrow> ('d \<Rightarrow> string option) \<Rightarrow> AuditTrail \<Rightarrow> 'd RecordCall \<Rightarrow> AuditTrail" where
  "record_call sha256 stringify trail c =
     fst (record_entry sha256 stringify trail (call_uid c) (call_now c) (call_actor c)
            (call_action c) (call_target c) (call_details c))"

definition record_all ::
    "(string \<Rightarrow> string) \<Rightarrow> ('d \<Rightarrow> string option) \<Rightarrow> AuditTrail \<Rightarrow> 'd RecordCall list \<Rightarrow> AuditTrail" where
  "record_all sha256 stringify trail calls = foldl (record_call sha256 stringify) trail calls"

text \<open>
  Tampering from outside, as the test suite does it:
  \<^verbatim>\<open>UPDATE audit_trail SET column = value WHERE sequence_number = k\<close>, refused when it would
  break \<open>sequence_number UNIQUE\<close>.
\<close>

datatype ColumnUpdate =
    SetPreviousHash string
  | SetSequenceNumber int
  | SetTimestamp string
  | SetActor string
  | SetAction string
  | SetTarget string
  | SetDetails string
  | SetHash string

fun apply_update :: "ColumnUpdate \<Rightarrow> AuditRow \<Rightarrow> AuditRow" where
  "apply_update (SetPreviousHash v) r = r\<lparr>previous_hash := v\<rparr>"
| "apply_update (SetSequenceNumber v) r = r\<lparr>sequence_number := v\<rparr>"
| "apply_update (SetTimestamp v) r = r\<lparr>row_timestamp := v\<rparr>"
| "apply_update (SetActor v) r = r\<lparr>row_actor := v\<rparr>"
| "apply_update (SetAction v) r = r\<lparr>row_action := v\<rparr>"
| "apply_update (SetTarget v) r = r\<lparr>row_target := v\<rparr>"
| "apply_update (SetDetails v) r = r\<lparr>row_details := v\<rparr>"
| "apply_update (SetHash v) r = r\<lparr>row_hash := v\<rparr>"

definition update_where_seq :: "AuditRow list \<Rightarrow> int \<Rightarrow> ColumnUpdate \<Rightarrow> AuditRow list option" where
  "update_where_seq rows k u =
     (let rows' = map (\<lambda>r. if sequence_number r = k then apply_update u r else r) rows
      in if distinct (map sequence_number rows') then Some rows' else None)"

text \<open>
  The ways a chain can be described: every row links to the hash before it and carries the
  hash of its own payload.
\<close>

fun chain_from :: "(string \<Rightarrow> string) \<Rightarrow> string \<Rightarrow> AuditRow list \<Rightarrow> bool" where
  "chain_from sha256 prev [] = True"
| "chain_from sha256 prev (r # rows) =
     (previous_hash r = prev \<and> row_hash r = sha256 (row_payload r) \<and> chain_from sha256 (row_hash r) rows)"

definition last_hash_from :: "string \<Rightarrow> AuditRow list \<Rightarrow> string" where
  "last_hash_from prev rows = (if rows = [] then prev else row_hash (last rows))"

text \<open>
  \<^verbatim>\<open>JSON.stringify\<close> on the values of \<open>jsval\<close>: a BigInt makes it throw. Strings are quoted
  with the escapes of the JSON grammar.
\<close>

definition hex_digit :: "nat \<Rightarrow> char" where
  "hex_digit n = ''0123456789abcdef'' ! n"

definition json_escape_char :: "char \<Rightarrow> string" where
  "json_escape_char c =
     (if c = CHR 0x22 then [CHR 0x5C, CHR 0x22]
      else if c = CHR 0x5C then [CHR 0x5C, CHR 0x5C]
      else if c = CHR 0x08 then [CHR 0x5C, CHR ''b'']
      else if c = CHR 0x0C then [CHR 0x5C, CHR ''f'']
      else if c = CHR 0x0A then [CHR 0x5C, CHR ''n'']
      else if c = CHR 0x0D then [CHR 0x5C, CHR ''r'']
      else if c = CHR 0x09 then [CHR 0x5C, CHR ''t'']
      else if (of_char c :: nat) < 32
        then [CHR 0x5C, CHR ''u'', CHR ''0'', CHR ''0'', hex_digit (of_char c div 16), hex_digit (of_char c mod 16)]
      else [c])"

definition json_quote :: "string \<Rightarrow> string" where
  "json_quote s = [CHR 0x22] @ concat (map json_escape_char s) @ [CHR 0x22]"

fun join_comma :: "string list \<Rightarrow> string" where
  "join_comma [] = []"
| "join_comma [s] = s"
| "join_comma (s # t # ss) = s @ '','' @ join_comma (t # ss)"

fun json_stringify :: "jsval \<Rightarrow> string option"
  and json_elements :: "jsval list \<Rightarrow> string list option"
  and json_members :: "(string \<times> jsval) list \<Rightarrow> string list option" where
  "json_stringify JNull = Some ''null''"
| "json_stringify (JBool b) = Some (if b then ''true'' else ''false'')"
| "json_stringify (JNum n) = Some (show_int n)"
| "json_stringify (JStr s) = Some (json_quote s)"
| "json_stringify (JBigInt n) = None"
| "json_stringify (JArr vs) = map_option (\<lambda>parts. ''['' @ join_comma parts @ '']'') (json_elements vs)"
| "json_stringify (JObj kvs) = map_option (\<lambda>parts. ''{'' @ join_comma parts @ ''}'') (json_members kvs)"
| "json_elements [] = Some []"
| "json_elements (v # vs) =
     (case json_stringify v of
        None \<Rightarrow> None
      | Some part \<Rightarrow> map_option ((#) part) (json_elements vs))"
| "json_members [] = Some []"
| "json_members ((k, v) # kvs) =
     (case json_stringify v of
        None \<Rightarrow> None
      | Some part \<Rightarrow> map_option ((#) (json_quote k @ '':'' @ part)) (json_members kvs))"

text \<open>
  What every trail reached from a new one satisfies: the rows form a chain from the genesis
  hash, \<open>lastHash\<close> is the hash of the last row, the rows were inserted in strictly ascending
  sequence, and none is numbered beyond the counter.
\<close>

definition trail_inv :: "(string \<Rightarrow> string) \<Rightarrow> AuditTrail \<Rightarrow> bool" where
  "trail_inv sha256 trail \<longleftrightarrow>
     chain_from sha256 genesis_hash (db trail)
     \<and> lastHash trail = last_hash_from genesis_hash (db trail)
     \<and> sorted_wrt (<) (map sequence_number (db trail))
     \<and> list_all (\<lambda>r. sequence_number r \<le> sequenceCounter trail) (db trail)"



text \<open>The three appends of the audit scenario, on a new trail over an empty table.\<close>

definition scenario_calls :: "jsval RecordCall list" where
  "scenario_calls =
     [\<lparr>call_uid = ''e1'', call_now = ''2026-01-01T00:00:00.000Z'', call_actor = ''system'',
       call_action = ''boot'', call_target = ''app'', call_details = JObj []\<rparr>,
      \<lparr>call_uid = ''e2'', call_now = ''2026-01-01T00:00:01.000Z'', call_actor = ''a1'',
       call_action = ''task_start'', call_target = ''t1'', call_details = JObj []\<rparr>,
      \<lparr>call_uid = ''e3'', call_now = ''2026-01-01T00:00:02.000Z'', call_actor = ''a2'',
       call_action = ''tool_invoke'', call_target = ''search'',
       call_details = JObj [(''query'', JStr ''test'')]\<rparr>]"

definition scenario_trail :: "(string \<Rightarrow> string) \<Rightarrow> AuditTrail" where
  "scenario_trail sha256 = record_all sha256 json_stringify (new_AuditTrail []) scenario_calls"

text \<open>A trail is in step with its table when its fields are what the constructor would read from it.\<close>

definition in_sync :: "AuditTrail \<Rightarrow> bool" where
  "in_sync trail \<longleftrightarrow> trail = new_AuditTrail (db trail)"


section \<open>Properties of the shared values\<close>










section \<open>Properties of the bounded autonomy engine\<close>

lemma getAuthority_override:
  "overrides e (name tool) = Some a \<Longrightarrow> getAuthority e tool = a"
  by (simp add: getAuthority_def)

lemma overrides_apply_engine_op:
  "\<not> sets_override n op \<Longrightarrow> overrides e n = None \<Longrightarrow> overrides (apply_engine_op e op) n = None"
  by (cases op)
     (auto simp: setOverride_def removeOverride_def setPolicies_def recordDecision_def
        validateValueThreshold_def Let_def split: option.splits)

lemma overrides_foldl_engine_ops:
  "\<not> list_ex (sets_override n) ops \<Longrightarrow> overrides e n = None
   \<Longrightarrow> overrides (foldl apply_engine_op e ops) n = None"
  by (induction ops arbitrary: e) (simp_all add: overrides_apply_engine_op)

lemma overrides_engine_after:
  "\<not> list_ex (sets_override n) ops \<Longrightarrow> overrides (engine_after ops) n = None"
  unfolding engine_after_def
  by (rule overrides_foldl_engine_ops) (simp_all add: new_engine_def)

text \<open>
  Claim C3, as stated: a tool with \<open>requiresApproval\<close> and critical risk gets \<open>require_human\<close>
  in every reachable state, also after \<open>setOverride\<close> for its name. The state reached by one
  \<open>setOverride\<close> call refutes it: the override is returned before the tool's own flags are read.
\<close>

theorem C3_override_counterexample:
  "getAuthority (engine_after [SetOverride ''wire_transfer'' auto_approve])
     \<lparr>name = ''wire_transfer'', category = ''payment'', requiresApproval = True,
      riskLevel = risk_critical\<rparr> = auto_approve"
  by (simp add: engine_after_def getAuthority_def setOverride_def)

text \<open>
  Claim C3, amended: in every engine state that holds no override for the tool's name (whatever
  its policies and decision log), a tool with \<open>requiresApproval\<close> and critical risk gets
  \<open>require_human\<close>.
\<close>

theorem C3_critical_requires_human:
  assumes "overrides e (name tool) = None"
    and "requiresApproval tool"
    and "riskLevel tool = risk_critical"
  shows "getAuthority e tool = require_human"
  using assms by (simp add: getAuthority_def)

theorem C3_critical_requires_human_witness:
  "getAuthority
     (engine_after [SetOverride ''search'' auto_approve, SetPolicies [], RemoveOverride ''other''])
     \<lparr>name = ''wire_transfer'', category = ''payment'', requiresApproval = True,
      riskLevel = risk_critical\<rparr> = require_human"
  by (rule C3_critical_requires_human) (simp_all add: overrides_engine_after)

text \<open>
  Claim C4: after \<open>setOverride(name, a)\<close>, \<open>getAuthority\<close> returns \<open>a\<close> for every tool of that name,
  whatever its \<open>requiresApproval\<close> flag and risk level, and so \<open>canAutoExecute\<close> is true exactly
  when \<open>a\<close> is \<open>auto_approve\<close> or \<open>log_only\<close>, also for a critical tool that requires approval.
\<close>

theorem C4_override_precedence:
  assumes "name tool = n"
  shows "getAuthority (setOverride e n a) tool = a
       \<and> canAutoExecute (setOverride e n a) tool = (a = auto_approve \<or> a = log_only)"
  using assms by (simp add: getAuthority_def canAutoExecute_def setOverride_def)

theorem C4_override_precedence_witness:
  "getAuthority (setOverride new_engine ''wire_transfer'' auto_approve)
     \<lparr>name = ''wire_transfer'', category = ''payment'', requiresApproval = True,
      riskLevel = risk_critical\<rparr> = auto_approve
   \<and> canAutoExecute (setOverride new_engine ''wire_transfer'' auto_approve)
     \<lparr>name = ''wire_transfer'', category = ''payment'', requiresApproval = True,
      riskLevel = risk_critical\<rparr>"
  using C4_override_precedence [of
      "\<lparr>name = ''wire_transfer'', category = ''payment'', requiresApproval = True,
        riskLevel = risk_critical\<rparr>" "''wire_transfer''" new_engine auto_approve]
  by simp

text \<open>An override stays in force until an operation on the same name replaces or removes it.\<close>

lemma override_kept_by_op:
  "\<not> touches_override n op \<Longrightarrow> overrides (apply_engine_op e op) n = overrides e n"
  by (cases op)
     (auto simp: setOverride_def removeOverride_def setPolicies_def recordDecision_def
        validateValueThreshold_def Let_def split: option.splits)

lemma override_kept_by_ops:
  "\<not> list_ex (touches_override n) ops \<Longrightarrow> overrides (foldl apply_engine_op e ops) n = overrides e n"
  by (induction ops arbitrary: e) (simp_all add: override_kept_by_op)

lemma getAuthority_after_later_ops:
  "\<not> list_ex (touches_override (name tool)) ops
   \<Longrightarrow> getAuthority (foldl apply_engine_op (setOverride e (name tool) a) ops) tool = a"
  by (rule getAuthority_override) (simp add: override_kept_by_ops setOverride_def)

text \<open>
  Value-threshold escalation where the threshold is not \<open>0\<close>: the base authority is promoted one
  step and one decision is appended to the log (which is then cut to its last 5000 entries if it
  has grown beyond 10000).
\<close>

lemma validateValueThreshold_escalates:
  assumes "find_policy e tool = Some policy"
    and "maxAutoApproveValue policy = Some limit"
    and "limit \<noteq> 0"
    and "estimatedValue > limit"
  shows "validateValueThreshold e now tool estimatedValue =
           (let escalated = (if getAuthority e tool = auto_approve then require_approval else require_human)
            in (escalated,
                recordDecision e now tool escalated
                  (''Value threshold exceeded: $'' @ show_int estimatedValue)))"
  using assms by (simp add: validateValueThreshold_def Let_def)

lemma recordDecision_appends_one:
  assumes "length (auditLog e) < 10000"
  shows "auditLog (recordDecision e now tool d reason) =
           auditLog e @ [\<lparr>d_timestamp = now, d_tool = name tool, d_decision = d, d_reason = reason\<rparr>]"
  using assms by (simp add: recordDecision_def Let_def)

lemma scenario_governance_escalation:
  "validateValueThreshold
     (setPolicies new_engine
        [\<lparr>p_riskLevel = risk_high, authority = require_approval, maxAutoApproveValue = Some 1000,
          auditRequired = True\<rparr>])
     0 \<lparr>name = ''transfer'', category = ''payment'', requiresApproval = False, riskLevel = risk_high\<rparr>
     1500
   = (require_human,
      \<lparr>policies = [\<lparr>p_riskLevel = risk_high, authority = require_approval,
                     maxAutoApproveValue = Some 1000, auditRequired = True\<rparr>],
       overrides = Map.empty,
       auditLog = [\<lparr>d_timestamp = 0, d_tool = ''transfer'', d_decision = require_human,
                    d_reason = ''Value threshold exceeded: $1500''\<rparr>]\<rparr>)"
  by (simp add: validateValueThreshold_def find_policy_def getAuthority_def setPolicies_def
        new_engine_def recordDecision_def Let_def show_int_def show_nat.simps digit_char_def)

text \<open>
  Claim C6 at a threshold of \<open>0\<close>: the policy for low risk defines \<open>maxAutoApproveValue = 0\<close> and
  the estimated value \<open>5\<close> is strictly greater, yet the base authority \<open>auto_approve\<close> comes back
  unpromoted and the decision log stays empty. The claim asks for \<open>require_approval\<close> and one log
  entry: the guard reads the threshold as a truth value, and \<open>0\<close> is false.
\<close>

theorem C6_zero_threshold_not_escalated:
  "validateValueThreshold
     (setPolicies new_engine
        [\<lparr>p_riskLevel = risk_low, authority = auto_approve, maxAutoApproveValue = Some 0,
          auditRequired = False\<rparr>])
     0 \<lparr>name = ''refund'', category = ''payment'', requiresApproval = False, riskLevel = risk_low\<rparr>
     5
   = (auto_approve,
      \<lparr>policies = [\<lparr>p_riskLevel = risk_low, authority = auto_approve,
                     maxAutoApproveValue = Some 0, auditRequired = False\<rparr>],
       overrides = Map.empty,
       auditLog = []\<rparr>)"
  by (simp add: validateValueThreshold_def find_policy_def getAuthority_def setPolicies_def
        new_engine_def)


section \<open>Properties of the message bus\<close>

lemma find_original_None:
  "\<not> list_ex (\<lambda>(agentId, queue). list_ex (\<lambda>m. msg_id m = i) queue) qs \<Longrightarrow> find_original i qs = None"
proof (induction qs)
  case Nil
  show ?case by simp
next
  case (Cons p qs)
  obtain a q where p: "p = (a, q)" by (cases p)
  from Cons.prems p have "find (\<lambda>m. msg_id m = i) q = None"
    by (auto simp: find_None_iff list_ex_iff)
  with Cons p show ?case by simp
qed

text \<open>
  Claim C10: \<open>respond\<close> with an id that no message of any mailbox carries returns \<open>null\<close> and
  leaves the bus as it was: the mailboxes and the acknowledged set are unchanged.
\<close>

theorem C10_respond_unknown_id:
  assumes "\<not> holds_id b originalMsgId"
  shows "respond b uid now originalMsgId from pl ttl_ms = (None, b)"
  using assms by (simp add: respond_def holds_id_def find_original_None)

theorem C10_respond_unknown_id_witness:
  "respond (fst (snd (send new_bus ''m1'' 0 ''hippocrates'' ''atlas'' [(''x'', JNum 1)] 300000)))
     ''m2'' 10 ''no-such-id'' ''atlas'' [] 300000
   = (None, fst (snd (send new_bus ''m1'' 0 ''hippocrates'' ''atlas'' [(''x'', JNum 1)] 300000)))"
  by (rule C10_respond_unknown_id)
     (simp add: holds_id_def send_def new_bus_def ensure_queue_def push_message_def Let_def)

lemma map_of_set_key_same: "map_of (set_key k v qs) k = Some v"
  by (induction qs) auto

lemma mailbox_after_push:
  "map_of (push_message (ensure_queue qs agent) agent m) agent
     = Some ((case map_of qs agent of None \<Rightarrow> [] | Some q \<Rightarrow> q) @ [m])"
  by (cases "map_of qs agent")
     (simp_all add: push_message_def ensure_queue_def map_of_set_key_same)

lemma mailbox_after_send:
  assumes "send b uid now from to pl ttl_ms = (msg, b1, evs)"
  shows "mailbox b1 to = mailbox b to @ [msg]" and "acknowledged b1 = acknowledged b"
    and "msg = \<lparr>msg_id = uid, fromAgent = from, toAgent = to, msg_type = type_request,
                 payload = pl, msg_timestamp = now, ttl = ttl_ms\<rparr>"
  using assms by (auto simp: send_def Let_def mailbox_def mailbox_after_push)

text \<open>
  Claim C8: on a bus where nothing is pending for \<open>atlas\<close> and the new id is not acknowledged
  already (a new bus is one), after \<open>send('hippocrates', 'atlas', {x: 1}, 300000)\<close> at time \<open>t0\<close>,
  \<open>receive('atlas', 20)\<close> within the time to live returns the message; \<open>consume('atlas', 20)\<close>
  within the time to live returns the same message and leaves its id acknowledged; and every
  later \<open>receive('atlas', limit)\<close>, for any limit and at any time, returns the empty list.
\<close>

theorem C8_directed_delivery:
  assumes "uid \<notin> set (acknowledged b)"
    and "getQueueDepth b ''atlas'' = 0"
    and "send b uid t0 ''hippocrates'' ''atlas'' [(''x'', JNum 1)] 300000 = (msg, b1, evs)"
    and "t1 - t0 < 300000"
    and "t2 - t0 < 300000"
    and "consume b1 ''atlas'' 20 t2 = (msgs, b2)"
  shows "receive b1 ''atlas'' 20 t1 = [msg]
       \<and> msgs = [msg]
       \<and> msg_id msg \<in> set (acknowledged b2)
       \<and> receive b2 ''atlas'' limit t3 = []"
proof -
  note sent = mailbox_after_send [OF assms(3)]
  from assms(2) have idle: "filter (\<lambda>m. msg_id m \<notin> set (acknowledged b)) (mailbox b ''atlas'') = []"
    by (simp add: getQueueDepth_def)
  have id: "msg_id msg = uid" and live: "msg_timestamp msg = t0" "ttl msg = 300000"
    by (simp_all add: sent(3))
  have r1: "receive b1 ''atlas'' 20 t = [msg]" if "t - t0 < 300000" for t
    using that assms(1) by (simp add: receive_def sent(1,2) idle id live slice0_def)
  from assms(6) r1 [OF assms(5)] have msgs: "msgs = [msg]"
    and b2: "b2 = acknowledge b1 uid"
    by (auto simp: consume_def Let_def id)
  from assms(1) have ack2: "acknowledged b2 = acknowledged b @ [uid]"
    by (simp add: b2 acknowledge_def sent(2))
  have box2: "mailbox b2 ''atlas'' = mailbox b ''atlas'' @ [msg]"
    by (simp add: b2 acknowledge_def mailbox_def sent(1) [unfolded mailbox_def])
  from idle have "filter (\<lambda>m. msg_id m \<notin> set (acknowledged b2)) (mailbox b2 ''atlas'') = []"
    by (auto simp: ack2 box2 id filter_empty_conv)
  then have "receive b2 ''atlas'' limit t3 = []"
    by (simp add: receive_def slice0_def)
  with r1 [OF assms(4)] msgs ack2 id show ?thesis by simp
qed

theorem C8_directed_delivery_witness:
  "receive (fst (snd (send new_bus ''m1'' 1000 ''hippocrates'' ''atlas'' [(''x'', JNum 1)] 300000)))
     ''atlas'' 20 1005
     = [fst (send new_bus ''m1'' 1000 ''hippocrates'' ''atlas'' [(''x'', JNum 1)] 300000)]
   \<and> fst (consume (fst (snd (send new_bus ''m1'' 1000 ''hippocrates'' ''atlas'' [(''x'', JNum 1)] 300000)))
          ''atlas'' 20 1010)
     = [fst (send new_bus ''m1'' 1000 ''hippocrates'' ''atlas'' [(''x'', JNum 1)] 300000)]
   \<and> ''m1'' \<in> set (acknowledged (snd (consume
          (fst (snd (send new_bus ''m1'' 1000 ''hippocrates'' ''atlas'' [(''x'', JNum 1)] 300000)))
          ''atlas'' 20 1010)))
   \<and> receive (snd (consume
          (fst (snd (send new_bus ''m1'' 1000 ''hippocrates'' ''atlas'' [(''x'', JNum 1)] 300000)))
          ''atlas'' 20 1010)) ''atlas'' 20 1020 = []"
proof -
  obtain msg b1 evs
    where s: "send new_bus ''m1'' 1000 ''hippocrates'' ''atlas'' [(''x'', JNum 1)] 300000 = (msg, b1, evs)"
    by (cases "send new_bus ''m1'' 1000 ''hippocrates'' ''atlas'' [(''x'', JNum 1)] 300000") auto
  obtain msgs b2 where c: "consume b1 ''atlas'' 20 1010 = (msgs, b2)"
    by (cases "consume b1 ''atlas'' 20 1010") auto
  have id: "msg_id msg = ''m1''"
    using s by (auto simp: send_def Let_def)
  have new: "''m1'' \<notin> set (acknowledged new_bus)" "getQueueDepth new_bus ''atlas'' = 0"
    by (simp_all add: new_bus_def getQueueDepth_def mailbox_def)
  from C8_directed_delivery [OF new s _ _ c, of 1005 20 1020] s c id show ?thesis
    by simp
qed

lemma count_expired_events:
  "count_list (map a2a_expired xs) (a2a_expired m) = count_list xs m"
  by (induction xs) auto

lemma count_list_filter_keep:
  "count_list (filter P xs) m = (if P m then count_list xs m else 0)"
  by (induction xs) auto

lemma purge_events_in:
  "count_list (concat (map (\<lambda>(agentId, queue). map a2a_expired (filter (expired t) queue)) qs))
     (a2a_expired m) = (if expired t m then copies_in qs m else 0)"
  by (induction qs) (auto simp: count_expired_events count_list_filter_keep)

lemma purge_event_count:
  "count_list (snd (purgeExpired b t)) (a2a_expired m) = (if expired t m then copies b m else 0)"
  by (simp add: purgeExpired_def copies_def purge_events_in)

lemma copies_in_purged:
  "copies_in (map (\<lambda>(agentId, queue). (agentId, filter (\<lambda>m. \<not> expired t m) queue)) qs) m
     = (if expired t m then 0 else copies_in qs m)"
  by (induction qs) (auto simp: count_list_filter_keep)

lemma copies_after_purge:
  "copies (fst (purgeExpired b t)) m = (if expired t m then 0 else copies b m)"
  by (simp add: purgeExpired_def copies_def copies_in_purged)

lemma set_slice0: "set (slice0 limit xs) \<subseteq> set xs"
  by (auto simp: slice0_def dest: in_set_takeD)

lemma receive_not_expired:
  "m \<in> set (receive b agentId limit t) \<Longrightarrow> \<not> expired t m"
  using set_slice0 by (fastforce simp: receive_def expired_def)

lemma set_key_absent: "map_of qs k = None \<Longrightarrow> set_key k v qs = qs @ [(k, v)]"
  by (induction qs) (auto split: if_splits)

lemma copies_in_append: "copies_in (qs @ rs) m = copies_in qs m + copies_in rs m"
  by (induction qs) auto

lemma copies_in_push:
  "map_of qs k = Some q \<Longrightarrow> copies_in (set_key k (q @ [m]) qs) m = copies_in qs m + 1"
  by (induction qs) (auto split: if_splits)

lemma copies_in_absent:
  "\<not> list_ex (\<lambda>(agentId, queue). list_ex (\<lambda>m'. msg_id m' = msg_id m) queue) qs
   \<Longrightarrow> copies_in qs m = 0"
  by (induction qs) (auto simp: list_ex_iff count_list_0_iff)

lemma copies_absent: "\<not> holds_id b (msg_id m) \<Longrightarrow> copies b m = 0"
  by (simp add: holds_id_def copies_def copies_in_absent)

lemma copies_after_send:
  assumes "send b uid now from to pl ttl_ms = (m, b', evs)"
  shows "copies b' m = copies b m + 1"
proof -
  let ?qs = "ensure_queue (queues b) to"
  have same: "copies_in ?qs m = copies_in (queues b) m"
    by (simp add: ensure_queue_def set_key_absent copies_in_append)
  have "\<exists>q. map_of ?qs to = Some q"
    by (cases "map_of (queues b) to") (simp_all add: ensure_queue_def set_key_absent map_add_def)
  then obtain q where q: "map_of ?qs to = Some q" ..
  from assms have b': "queues b' = push_message ?qs to m"
    by (auto simp: send_def Let_def)
  show ?thesis
    by (simp add: copies_def b' push_message_def q copies_in_push same)
qed

lemma directed_message_single_copy:
  assumes "send b uid now from to pl ttl_ms = (m, b', evs)" and "\<not> holds_id b uid"
  shows "copies b' m = 1"
proof -
  from assms(1) have "msg_id m = uid" by (auto simp: send_def Let_def)
  with assms(2) have "copies b m = 0" by (simp add: copies_absent)
  with copies_after_send [OF assms(1)] show ?thesis by simp
qed

lemma directed_message_expires_once:
  assumes "send b uid now from to pl ttl_ms = (m, b', evs)" and "\<not> holds_id b uid"
    and "ttl_ms \<le> t - now"
  shows "count_list (snd (purgeExpired b' t)) (a2a_expired m) = 1"
proof -
  from assms(1) have "ttl m = ttl_ms" and "msg_timestamp m = now"
    by (auto simp: send_def Let_def)
  with assms(3) have "expired t m" by (simp add: expired_def)
  then show ?thesis
    by (simp add: purge_event_count directed_message_single_copy [OF assms(1,2)])
qed

text \<open>
  Claim C7, as stated: each message's expiration event fires exactly once. A broadcast that
  reached two mailboxes refutes it: the purge emits the event once in each mailbox, twice for
  the one message.
\<close>

theorem C7_broadcast_expires_twice_counterexample:
  "snd (purgeExpired
     (fst (snd (broadcast (registerAgent (registerAgent new_bus ''atlas'') ''hermes'')
                  ''m1'' 0 ''hippocrates'' [] 1000)))
     60000)
   = [a2a_expired \<lparr>msg_id = ''m1'', fromAgent = ''hippocrates'', toAgent = ''*'',
                    msg_type = type_broadcast, payload = [], msg_timestamp = 0, ttl = 1000\<rparr>,
      a2a_expired \<lparr>msg_id = ''m1'', fromAgent = ''hippocrates'', toAgent = ''*'',
                    msg_type = type_broadcast, payload = [], msg_timestamp = 0, ttl = 1000\<rparr>]"
  by (simp add: purgeExpired_def broadcast_def registerAgent_def new_bus_def ensure_queue_def
        expired_def Let_def)

lemma copies_in_broadcast:
  "copies_in (map (\<lambda>(agentId, queue). if agentId \<noteq> from then (agentId, queue @ [m])
                                        else (agentId, queue)) qs) m
     = copies_in qs m + length (filter (\<lambda>(agentId, queue). agentId \<noteq> from) qs)"
  by (induction qs) auto

lemma broadcast_copies:
  assumes "broadcast b uid now from pl ttl_ms = (m, b', evs)" and "\<not> holds_id b uid"
  shows "copies b' m = length (filter (\<lambda>(agentId, queue). agentId \<noteq> from) (queues b))"
proof -
  from assms(1) have "msg_id m = uid" by (auto simp: broadcast_def Let_def)
  with assms(2) have "copies_in (queues b) m = 0"
    using copies_absent by (simp add: copies_def)
  moreover from assms(1) have "queues b' = map (\<lambda>(agentId, queue). if agentId \<noteq> from
      then (agentId, queue @ [m]) else (agentId, queue)) (queues b)"
    by (auto simp: broadcast_def Let_def)
  ultimately show ?thesis
    by (simp add: copies_def copies_in_broadcast)
qed

text \<open>
  Claim C7, amended: once the time to live of a message has elapsed, \<open>receive\<close> returns it for
  no actor, before or after the purge; the purge that then runs emits one expiration event for
  every mailbox slot that holds the message and removes them all, and a later purge emits none
  for it. A message placed by \<open>send\<close> under a fresh id sits in one slot, so its event fires
  exactly once; a broadcast under a fresh id sits in one slot for every mailbox but the
  sender's, so its event fires once for each of them.
\<close>

theorem C7_expiry:
  assumes "ttl m \<le> t - msg_timestamp m" and "t \<le> t'"
  shows "count_list (snd (purgeExpired b t)) (a2a_expired m) = copies b m
       \<and> copies (fst (purgeExpired b t)) m = 0
       \<and> count_list (snd (purgeExpired (fst (purgeExpired b t)) t')) (a2a_expired m) = 0
       \<and> m \<notin> set (receive b agentId limit t')
       \<and> m \<notin> set (receive (fst (purgeExpired b t)) agentId limit t')
       \<and> (\<not> holds_id b0 uid \<and> send b0 uid now from to pl ttl_ms = (m, b, evs)
            \<longrightarrow> copies b m = 1)
       \<and> (\<not> holds_id b0 uid \<and> broadcast b0 uid now from pl ttl_ms = (m, b, evs)
            \<longrightarrow> copies b m = length (filter (\<lambda>(agentId, queue). agentId \<noteq> from) (queues b0)))"
proof -
  from assms have e: "expired t m" and e': "expired t' m"
    by (simp_all add: expired_def)
  have "count_list (snd (purgeExpired b t)) (a2a_expired m) = copies b m"
    using e by (simp add: purge_event_count)
  moreover have gone: "copies (fst (purgeExpired b t)) m = 0"
    using e by (simp add: copies_after_purge)
  moreover have "count_list (snd (purgeExpired (fst (purgeExpired b t)) t')) (a2a_expired m) = 0"
    using gone by (simp add: purge_event_count)
  moreover have "m \<notin> set (receive b1 agentId limit t')" for b1
    using e' receive_not_expired by blast
  ultimately show ?thesis
    using directed_message_single_copy broadcast_copies by blast
qed

theorem C7_expiry_witness:
  "count_list
     (snd (purgeExpired (fst (snd (send new_bus ''m1'' 0 ''hippocrates'' ''atlas'' [] 1000))) 60000))
     (a2a_expired (fst (send new_bus ''m1'' 0 ''hippocrates'' ''atlas'' [] 1000))) = 1
   \<and> fst (send new_bus ''m1'' 0 ''hippocrates'' ''atlas'' [] 1000)
       \<notin> set (receive (fst (snd (send new_bus ''m1'' 0 ''hippocrates'' ''atlas'' [] 1000)))
                ''atlas'' 20 120000)
   \<and> count_list
       (snd (purgeExpired
          (fst (purgeExpired (fst (snd (send new_bus ''m1'' 0 ''hippocrates'' ''atlas'' [] 1000))) 60000))
          120000))
       (a2a_expired (fst (send new_bus ''m1'' 0 ''hippocrates'' ''atlas'' [] 1000))) = 0"
proof -
  let ?m = "fst (send new_bus ''m1'' 0 ''hippocrates'' ''atlas'' [] 1000)"
  let ?b = "fst (snd (send new_bus ''m1'' 0 ''hippocrates'' ''atlas'' [] 1000))"
  let ?evs = "snd (snd (send new_bus ''m1'' 0 ''hippocrates'' ''atlas'' [] 1000))"
  have elapsed: "ttl ?m \<le> 60000 - msg_timestamp ?m"
    by (simp add: send_def Let_def)
  have fresh: "\<not> holds_id new_bus ''m1''"
    by (simp add: holds_id_def new_bus_def)
  have sent: "send new_bus ''m1'' 0 ''hippocrates'' ''atlas'' [] 1000 = (?m, ?b, ?evs)"
    by simp
  from C7_expiry [where m = ?m and t = 60000 and t' = 120000 and b = ?b and agentId = "''atlas''"
      and limit = 20 and ?b0.0 = new_bus and uid = "''m1''" and now = 0 and ?from = "''hippocrates''"
      and to = "''atlas''" and pl = "[]" and ttl_ms = 1000 and evs = ?evs, OF elapsed]
    fresh sent
  show ?thesis by simp
qed


section \<open>Properties of the daemon's task queue\<close>

lemma enqueueTask_busy:
  "processing d \<Longrightarrow> enqueueTask d task = d\<lparr>taskQueue := taskQueue d @ [task]\<rparr>"
  by (simp add: enqueueTask_def processQueue_def)

lemma enqueue_all_busy:
  "processing d \<Longrightarrow> foldl daemon_step d (map Enqueue ts) = d\<lparr>taskQueue := taskQueue d @ ts\<rparr>"
  by (induction ts arbitrary: d) (simp_all add: enqueueTask_busy)

lemma settle_idle: "inflight d = None \<Longrightarrow> foldl daemon_step d (map Settled oks) = d"
  by (induction oks) (simp_all add: settle_def)

lemma sort_queue_tail:
  assumes "sort_queue q = t # rest"
  shows "sort_queue rest = rest"
proof -
  have "sorted (map (\<lambda>t. priorityOrder (priority t)) (sort_queue q))"
    by (simp add: sort_queue_def)
  with assms have "sorted (map (\<lambda>t. priorityOrder (priority t)) rest)" by simp
  then show ?thesis
    unfolding sort_queue_def by (rule sort_key_id_if_sorted)
qed

text \<open>
  While a task is in flight, each settlement hands the head of the sorted queue to
  \<open>executeTask\<close>; the rest stays sorted, so the whole queue leaves in sorted order.
\<close>

lemma drain_busy:
  assumes "inflight d \<noteq> None" and "length (taskQueue d) \<le> length oks"
  shows "dispatched (foldl daemon_step d (map Settled oks)) = dispatched d @ sort_queue (taskQueue d)"
  using assms
proof (induction oks arbitrary: d)
  case Nil
  then show ?case by (simp add: sort_queue_def)
next
  case (Cons ok oks)
  from Cons.prems obtain t0 where t0: "inflight d = Some t0" by auto
  show ?case
  proof (cases "sort_queue (taskQueue d)")
    case Nil
    then have "inflight (settle d ok) = None" and "dispatched (settle d ok) = dispatched d"
      by (simp_all add: settle_def loop_turn_def t0)
    with Nil show ?thesis by (simp add: settle_idle)
  next
    case (Cons t rest)
    let ?d = "settle d ok"
    from Cons have d': "taskQueue ?d = rest" "inflight ?d = Some t" "dispatched ?d = dispatched d @ [t]"
      by (simp_all add: settle_def loop_turn_def t0)
    have "length (sort_queue (taskQueue d)) = length (taskQueue d)"
      by (simp add: sort_queue_def)
    with Cons Cons.prems(2) have "length rest \<le> length oks" by simp
    with Cons.IH [of ?d] d'
    have "dispatched (foldl daemon_step ?d (map Settled oks)) = (dispatched d @ [t]) @ sort_queue rest"
      by simp
    with Cons sort_queue_tail [OF Cons] show ?thesis by simp
  qed
qed

lemma priorityOrder_inj: "priorityOrder p = priorityOrder q \<longleftrightarrow> p = q"
  by (cases p; cases q) simp_all

lemma sort_queue_stable:
  "filter (\<lambda>t. priority t = p) (sort_queue q) = filter (\<lambda>t. priority t = p) q"
  using sort_key_stable [of "\<lambda>t. priorityOrder (priority t)" "priorityOrder p" q]
  by (simp add: sort_queue_def priorityOrder_inj)

text \<open>An idle daemon hands the task it is given to \<open>executeTask\<close> at once, whatever its priority.\<close>

lemma idle_daemon_starts_task:
  assumes "\<not> processing d" and "taskQueue d = []"
  shows "dispatched (enqueueTask d task) = dispatched d @ [task]"
    and "inflight (enqueueTask d task) = Some task"
    and "taskQueue (enqueueTask d task) = []"
  using assms by (simp_all add: enqueueTask_def processQueue_def loop_turn_def sort_queue_def)

text \<open>
  Claim C5, as stated: T1 (low), T2 (critical), T3 (medium), T4 (critical) enqueued in that order
  are processed T2, T4, T3, T1. On the daemon as it starts, \<open>enqueueTask(T1)\<close> finds the worker
  idle and hands T1 to \<open>executeTask\<close> before T2 is enqueued; only T2, T3, T4 wait and are sorted.
\<close>

theorem C5_idle_daemon_counterexample:
  "map task_id (dispatched (run_daemon new_daemon
      [Enqueue T1, Enqueue T2, Enqueue T3, Enqueue T4,
       Settled True, Settled True, Settled True, Settled True]))
   = [''T1'', ''T2'', ''T4'', ''T3'']"
  by (simp add: run_daemon_def new_daemon_def enqueueTask_def processQueue_def loop_turn_def
        settle_def sort_queue_def T1_def T2_def T3_def T4_def createTask_def)

text \<open>
  Claim C5, amended: tasks enqueued while the worker is busy with a task are processed, once it
  settles, by priority (critical, high, medium, low) and in insertion order within a priority:
  T1 (low), T2 (critical), T3 (medium), T4 (critical) enqueued in that order behind a running
  task are processed T2, T4, T3, T1. The processing order is the waiting tasks sorted stably
  by priority.
\<close>

theorem C5_busy_priority_order:
  assumes "processing d" and "inflight d \<noteq> None"
    and "length (taskQueue d) + length ts \<le> length oks"
  shows "dispatched (run_daemon d (map Enqueue ts @ map Settled oks))
           = dispatched d @ sort_queue (taskQueue d @ ts)
       \<and> sorted (map (\<lambda>t. priorityOrder (priority t)) (sort_queue (taskQueue d @ ts)))
       \<and> (\<forall>p. filter (\<lambda>t. priority t = p) (sort_queue (taskQueue d @ ts))
                = filter (\<lambda>t. priority t = p) (taskQueue d @ ts))"
proof -
  let ?d = "d\<lparr>taskQueue := taskQueue d @ ts\<rparr>"
  have "run_daemon d (map Enqueue ts @ map Settled oks) = foldl daemon_step ?d (map Settled oks)"
    using assms(1) by (simp add: run_daemon_def enqueue_all_busy)
  moreover have "dispatched (foldl daemon_step ?d (map Settled oks))
                   = dispatched ?d @ sort_queue (taskQueue ?d)"
    using assms(2,3) by (intro drain_busy) simp_all
  ultimately show ?thesis
    by (simp add: sort_queue_stable) (simp add: sort_queue_def)
qed

theorem C5_busy_priority_order_witness:
  "map task_id (dispatched (run_daemon (enqueueTask new_daemon T0)
      (map Enqueue [T1, T2, T3, T4] @ map Settled [True, True, True, True])))
   = [''T0'', ''T2'', ''T4'', ''T3'', ''T1'']"
proof -
  let ?d = "enqueueTask new_daemon T0"
  have d: "processing ?d" "inflight ?d \<noteq> None" "taskQueue ?d = []" "dispatched ?d = [T0]"
    by (simp_all add: enqueueTask_def processQueue_def loop_turn_def sort_queue_def new_daemon_def)
  have "length (taskQueue ?d) + length [T1, T2, T3, T4] \<le> length [True, True, True, True]"
    by (simp add: d)
  from C5_busy_priority_order [OF d(1,2) this]
  have "dispatched (run_daemon ?d (map Enqueue [T1, T2, T3, T4] @ map Settled [True, True, True, True]))
          = [T0] @ sort_queue [T1, T2, T3, T4]"
    by (simp add: d)
  then show ?thesis
    by (simp add: sort_queue_def T0_def T1_def T2_def T3_def T4_def createTask_def)
qed


section \<open>Properties of task execution\<close>




section \<open>Properties of the audit trail\<close>


lemma chain_from_snoc:
  "chain_from sha256 prev (rows @ [r]) \<longleftrightarrow>
     chain_from sha256 prev rows \<and> previous_hash r = last_hash_from prev rows
     \<and> row_hash r = sha256 (row_payload r)"
  by (induction rows arbitrary: prev) (auto simp: last_hash_from_def)

lemma select_all_asc_sorted:
  "sorted_wrt (<) (map sequence_number rows) \<Longrightarrow> select_all_asc rows = rows"
  unfolding select_all_asc_def
  by (intro sort_key_id_if_sorted strict_sorted_imp_sorted)


lemma trail_inv_record_entry:
  assumes "trail_inv sha256 trail"
  shows "trail_inv sha256 (fst (record_entry sha256 stringify trail uid now actr actn targ dets))"
proof (cases "stringify dets")
  case None
  with assms show ?thesis
    by (auto simp: record_entry_def trail_inv_def Let_def list_all_iff)
next
  case (Some json)
  let ?n = "sequenceCounter trail + 1"
  let ?r = "\<lparr>row_id = uid, sequence_number = ?n, row_timestamp = now, row_actor = actr,
             row_action = actn, row_target = targ, row_details = json,
             previous_hash = lastHash trail,
             row_hash = sha256 (hash_payload (lastHash trail) ?n now actr actn targ json)\<rparr>"
  show ?thesis
  proof (cases "insert_row (db trail) ?r")
    case None
    with Some assms show ?thesis
      by (auto simp: record_entry_def trail_inv_def Let_def list_all_iff)
  next
    case (Some rows)
    then have rows: "rows = db trail @ [?r]"
      by (auto simp: insert_row_def split: if_splits)
    have res: "fst (record_entry sha256 stringify trail uid now actr actn targ dets)
               = trail\<lparr>sequenceCounter := ?n, db := rows, lastHash := row_hash ?r\<rparr>"
      using \<open>stringify dets = Some json\<close> Some by (simp add: record_entry_def Let_def)
    from assms have "chain_from sha256 genesis_hash rows"
      by (simp add: rows chain_from_snoc trail_inv_def row_payload_def)
    moreover have "row_hash ?r = last_hash_from genesis_hash rows"
      by (simp add: rows last_hash_from_def)
    moreover from assms have "sorted_wrt (<) (map sequence_number rows)"
      by (auto simp: rows trail_inv_def sorted_wrt_append list_all_iff)
    moreover from assms have "list_all (\<lambda>r. sequence_number r \<le> ?n) rows"
      by (auto simp: rows trail_inv_def list_all_iff)
    ultimately show ?thesis
      by (simp add: res trail_inv_def)
  qed
qed













lemma order_kept_unless_sequence_number:
  assumes "trail_inv sha256 trail"
    and "update_where_seq (db trail) k u = Some rows'"
    and "\<forall>v. u \<noteq> SetSequenceNumber v"
  shows "sorted (map sequence_number rows')"
proof -
  from assms(3) have "sequence_number (apply_update u x) = sequence_number x" for x
    by (cases u) simp_all
  then have "map sequence_number (map (\<lambda>r. if sequence_number r = k then apply_update u r else r) (db trail))
             = map sequence_number (db trail)"
    by (simp add: comp_def cong: map_cong)
  with assms(2) have "map sequence_number rows' = map sequence_number (db trail)"
    by (auto simp: update_where_seq_def Let_def split: if_splits)
  with assms(1) show ?thesis
    by (simp add: trail_inv_def strict_sorted_imp_sorted)
qed




lemma scenario_rows:
  "db (scenario_trail sha256) =
     (let h1 = sha256 (hash_payload genesis_hash 1 ''2026-01-01T00:00:00.000Z'' ''system'' ''boot''
                 ''app'' ''{}'');
          h2 = sha256 (hash_payload h1 2 ''2026-01-01T00:00:01.000Z'' ''a1'' ''task_start'' ''t1'' ''{}'');
          h3 = sha256 (hash_payload h2 3 ''2026-01-01T00:00:02.000Z'' ''a2'' ''tool_invoke'' ''search''
                 (''{'' @ json_quote ''query'' @ '':'' @ json_quote ''test'' @ ''}''))
      in [\<lparr>row_id = ''e1'', sequence_number = 1, row_timestamp = ''2026-01-01T00:00:00.000Z'',
            row_actor = ''system'', row_action = ''boot'', row_target = ''app'',
            row_details = ''{}'', previous_hash = genesis_hash, row_hash = h1\<rparr>,
          \<lparr>row_id = ''e2'', sequence_number = 2, row_timestamp = ''2026-01-01T00:00:01.000Z'',
            row_actor = ''a1'', row_action = ''task_start'', row_target = ''t1'',
            row_details = ''{}'', previous_hash = h1, row_hash = h2\<rparr>,
          \<lparr>row_id = ''e3'', sequence_number = 3, row_timestamp = ''2026-01-01T00:00:02.000Z'',
            row_actor = ''a2'', row_action = ''tool_invoke'', row_target = ''search'',
            row_details = ''{'' @ json_quote ''query'' @ '':'' @ json_quote ''test'' @ ''}'',
            previous_hash = h2, row_hash = h3\<rparr>])"
  by (simp add: scenario_trail_def scenario_calls_def record_all_def record_call_def
        record_entry_def insert_row_def new_AuditTrail_def select_all_asc_def Let_def)

lemma scenario_seqs: "map sequence_number (db (scenario_trail sha256)) = [1, 2, 3]"
  by (simp add: scenario_rows Let_def)




text \<open>
  Claim C2 after an append that throws: on a new trail over an empty table, a first \<open>record\<close>
  call whose details hold a BigInt throws in \<^verbatim>\<open>JSON.stringify\<close>, after the counter was
  incremented; nothing is persisted. The next call then numbers its entry 2, although the
  table is empty: the claim asks for 1.
\<close>

theorem C2_failed_append_leaves_gap:
  "snd (record_entry sha256 json_stringify (new_AuditTrail []) ''e1'' ''2026-01-01T00:00:00.000Z''
          ''a1'' ''tool_invoke'' ''search'' (JObj [(''n'', JBigInt 10)])) = Inl SerializeError
   \<and> db (fst (record_entry sha256 json_stringify (new_AuditTrail []) ''e1''
          ''2026-01-01T00:00:00.000Z'' ''a1'' ''tool_invoke'' ''search'' (JObj [(''n'', JBigInt 10)]))) = []
   \<and> map_sum id sequenceNumber
       (snd (record_entry sha256 json_stringify
          (fst (record_entry sha256 json_stringify (new_AuditTrail []) ''e1''
             ''2026-01-01T00:00:00.000Z'' ''a1'' ''tool_invoke'' ''search'' (JObj [(''n'', JBigInt 10)])))
          ''e2'' ''2026-01-01T00:00:01.000Z'' ''a1'' ''task_start'' ''t1'' (JObj []))) = Inr 2
   \<and> map sequence_number
       (db (fst (record_entry sha256 json_stringify
          (fst (record_entry sha256 json_stringify (new_AuditTrail []) ''e1''
             ''2026-01-01T00:00:00.000Z'' ''a1'' ''tool_invoke'' ''search'' (JObj [(''n'', JBigInt 10)])))
          ''e2'' ''2026-01-01T00:00:01.000Z'' ''a1'' ''task_start'' ''t1'' (JObj [])))) = [2]"
  by (simp add: record_entry_def new_AuditTrail_def select_all_asc_def insert_row_def Let_def)

text \<open>
  What claim C2 says of an append holds as long as the trail is in step with its table; appends
  that return keep it so, and the first one that throws ends it.
\<close>

lemma new_AuditTrail_in_sync: "in_sync (new_AuditTrail rows)"
  by (simp add: in_sync_def new_AuditTrail_def split: list.splits)

lemma new_AuditTrail_sorted:
  assumes "sorted_wrt (<) (map sequence_number rows)"
  shows "new_AuditTrail rows =
           \<lparr>db = rows,
            sequenceCounter = (if rows = [] then 0 else sequence_number (last rows)),
            lastHash = last_hash_from genesis_hash rows\<rparr>"
proof (cases rows rule: rev_cases)
  case Nil
  then show ?thesis by (simp add: new_AuditTrail_def select_all_asc_def last_hash_from_def)
next
  case (snoc earlier r)
  with assms have "select_all_asc rows = earlier @ [r]"
    using select_all_asc_sorted by blast
  then show ?thesis by (simp add: new_AuditTrail_def snoc last_hash_from_def)
qed

lemma in_sync_counter:
  assumes "trail_inv sha256 trail"
  shows "in_sync trail \<longleftrightarrow>
           sequenceCounter trail = (if db trail = [] then 0 else sequence_number (last (db trail)))"
proof -
  from assms have "new_AuditTrail (db trail) =
      \<lparr>db = db trail,
       sequenceCounter = (if db trail = [] then 0 else sequence_number (last (db trail))),
       lastHash = lastHash trail\<rparr>"
    by (simp add: new_AuditTrail_sorted trail_inv_def)
  then show ?thesis
    unfolding in_sync_def by (cases trail) auto
qed

text \<open>An append that returns, on a trail in step with its table.\<close>

lemma append_in_sync:
  assumes inv: "trail_inv sha256 trail" and sync: "in_sync trail"
    and ok: "record_entry sha256 stringify trail uid now actr actn targ dets = (trail', Inr e)"
  shows "sequenceNumber e = (if db trail = [] then 1 else sequence_number (last (db trail)) + 1)"
    and "previousHash e = (if db trail = [] then genesis_hash else row_hash (last (db trail)))"
    and "\<exists>json. stringify dets = Some json
           \<and> hash e = sha256 (previousHash e @ ''|'' @ show_int (sequenceNumber e) @ ''|'' @ now @ ''|''
                          @ actr @ ''|'' @ actn @ ''|'' @ targ @ ''|'' @ json)"
    and "in_sync trail'"
proof -
  from ok obtain json rows where json: "stringify dets = Some json"
    and e: "e = \<lparr>entry_id = uid, sequenceNumber = sequenceCounter trail + 1, timestamp = now,
                 actor = actr, action = actn, target = targ, details = dets,
                 previousHash = lastHash trail,
                 hash = sha256 (hash_payload (lastHash trail) (sequenceCounter trail + 1) now
                          actr actn targ json)\<rparr>"
    and t': "trail' = fst (record_entry sha256 stringify trail uid now actr actn targ dets)"
    and rows: "db trail' = db trail @ [\<lparr>row_id = uid, sequence_number = sequenceCounter trail + 1,
                 row_timestamp = now, row_actor = actr, row_action = actn, row_target = targ,
                 row_details = json, previous_hash = lastHash trail,
                 row_hash = sha256 (hash_payload (lastHash trail) (sequenceCounter trail + 1) now
                          actr actn targ json)\<rparr>]"
    and ctr: "sequenceCounter trail' = sequenceCounter trail + 1"
    by (auto simp: record_entry_def Let_def insert_row_def split: option.splits if_splits)
  from inv sync have counter: "sequenceCounter trail = (if db trail = [] then 0 else sequence_number (last (db trail)))"
    by (simp add: in_sync_counter)
  from inv have lh: "lastHash trail = (if db trail = [] then genesis_hash else row_hash (last (db trail)))"
    by (simp add: trail_inv_def last_hash_from_def)
  show "sequenceNumber e = (if db trail = [] then 1 else sequence_number (last (db trail)) + 1)"
    by (simp add: e counter)
  show "previousHash e = (if db trail = [] then genesis_hash else row_hash (last (db trail)))"
    by (simp add: e lh)
  show "\<exists>json. stringify dets = Some json
           \<and> hash e = sha256 (previousHash e @ ''|'' @ show_int (sequenceNumber e) @ ''|'' @ now @ ''|''
                          @ actr @ ''|'' @ actn @ ''|'' @ targ @ ''|'' @ json)"
    by (simp add: json e hash_payload_def)
  have "trail_inv sha256 trail'"
    unfolding t' using inv by (rule trail_inv_record_entry)
  then show "in_sync trail'"
    by (simp add: in_sync_counter rows ctr)
qed

text \<open>An append that throws leaves the counter one ahead of the table.\<close>

lemma failed_append_out_of_sync:
  assumes inv: "trail_inv sha256 trail" and sync: "in_sync trail"
    and failed: "record_entry sha256 stringify trail uid now actr actn targ dets = (trail', Inl err)"
  shows "db trail' = db trail" and "sequenceCounter trail' = sequenceCounter trail + 1"
    and "\<not> in_sync trail'"
proof -
  from failed show db: "db trail' = db trail" and ctr: "sequenceCounter trail' = sequenceCounter trail + 1"
    by (auto simp: record_entry_def Let_def split: option.splits)
  have "trail' = fst (record_entry sha256 stringify trail uid now actr actn targ dets)"
    by (simp add: failed)
  with inv have "trail_inv sha256 trail'"
    by (simp add: trail_inv_record_entry)
  moreover from inv sync have "sequenceCounter trail = (if db trail = [] then 0 else sequence_number (last (db trail)))"
    by (simp add: in_sync_counter)
  ultimately show "\<not> in_sync trail'"
    by (simp add: in_sync_counter db ctr)
qed

end
